theory Spec2Isabelle
  imports Main
begin

section \<open>The data model of server.go\<close>

text \<open>
  \<^verbatim>\<open>type Method string\<close>, with the constants of the \<^verbatim>\<open>const\<close> block.
  Go compares strings byte by byte, which is equality of character lists.
\<close>

type_synonym Method = string

definition ANY :: Method where "ANY = ''''"
definition CONNECT :: Method where "CONNECT = ''CONNECT''"
definition DELETE :: Method where "DELETE = ''DELETE''"
definition GET :: Method where "GET = ''GET''"
definition HEAD :: Method where "HEAD = ''HEAD''"
definition OPTIONS :: Method where "OPTIONS = ''OPTIONS''"
definition PATCH :: Method where "PATCH = ''PATCH''"
definition POST :: Method where "POST = ''POST''"
definition PUT :: Method where "PUT = ''PUT''"
definition TRACE :: Method where "TRACE = ''TRACE''"

definition AnyPath :: string where "AnyPath = ''!AnyPath!''"

text \<open>
  What server.go reads of a \<^verbatim>\<open>*http.Request\<close>: the field \<^verbatim>\<open>Method\<close>, and the text
  that \<^verbatim>\<open>req.URL.String()\<close> returns, kept in \<open>URL\<close>. The standard library assembles that
  text from the parts of the URL (scheme, host, path, query, fragment); server.go only
  ever sees the assembled text.
\<close>

record request =
  Method :: string
  URL :: string

text \<open>What server.go writes of a \<^verbatim>\<open>http.Response\<close>: the status code and the body's bytes.\<close>

record response =
  StatusCode :: int
  Body :: string

text \<open>A Go \<^verbatim>\<open>error\<close> value, known by its message.\<close>

datatype error = Error string

text \<open>
  \<^verbatim>\<open>*testing.T\<close> as server.go uses it: \<^verbatim>\<open>t.Errorf(msg)\<close> marks the test as failed and
  records the call. \<open>errorfs\<close> holds the first argument of every \<^verbatim>\<open>Errorf\<close> call so far,
  oldest first.
\<close>

record testing_T =
  failed :: bool
  errorfs :: "string list"

definition Errorf :: "string \<Rightarrow> testing_T \<Rightarrow> testing_T" where
  "Errorf msg t = t\<lparr>failed := True, errorfs := errorfs t @ [msg]\<rparr>"

text \<open>
  \<^verbatim>\<open>type RoundTripFunc func(*http.Request) (*http.Response, error)\<close>.
  The pair of results holds two nullable values (\<open>None\<close> is \<^verbatim>\<open>nil\<close>). A Go function
  value may act on what it captured; the one thing a function of server.go captures and
  changes is the \<^verbatim>\<open>*testing.T\<close>, so a function body takes and returns the state of the
  test. A function value can itself be \<^verbatim>\<open>nil\<close>: \<open>None\<close>.
\<close>

type_synonym results = "response option \<times> error option"
type_synonym func = "request \<Rightarrow> testing_T \<Rightarrow> results \<times> testing_T"
type_synonym RoundTripFunc = "func option"

record tripEntry =
  "method" :: Method
  path :: string
  trip :: RoundTripFunc

record tripQueue =
  queue :: "tripEntry list"

text \<open>
  The queue is shared by pointer: \<^verbatim>\<open>tripPusher.engine\<close> is a \<^verbatim>\<open>*tripQueue\<close>, and every
  pusher that \<^verbatim>\<open>On\<close> hands out holds the pointer of the builder it came from. The store
  maps each address to the \<^verbatim>\<open>tripQueue\<close> struct that lives there; \<open>next_free\<close> is the
  address that the next \<^verbatim>\<open>&tripQueue{}\<close> gets.
\<close>

type_synonym addr = nat

record heap =
  cell :: "addr \<Rightarrow> tripQueue"
  next_free :: addr

text \<open>
  The fields \<^verbatim>\<open>method\<close> and \<^verbatim>\<open>path\<close> of a \<^verbatim>\<open>tripPusher\<close> are \<open>pmethod\<close> and \<open>ppath\<close>
  here, apart from the fields of the same names of a \<^verbatim>\<open>tripEntry\<close>.
\<close>

record tripPusher =
  engine :: addr
  pmethod :: Method
  ppath :: string

text \<open>
  A builder embeds its pusher and a server its builder, so \<^verbatim>\<open>s.engine\<close> is
  \<open>engine (tripPusher (tripBuilder s))\<close> and \<^verbatim>\<open>s.Push\<close> is the \<open>Push\<close> of that pusher.
  Pushers, builders and servers are reached by pointers as well, but server.go writes
  none of their fields after it has built them, so they are values here; a test that
  assigns \<^verbatim>\<open>s.DefaultRoundTrip\<close> is a record update.
\<close>

record tripBuilder =
  tripPusher :: tripPusher

record Server =
  tripBuilder :: tripBuilder
  DefaultRoundTrip :: RoundTripFunc

record transport =
  s :: Server

text \<open>Calling a \<^verbatim>\<open>nil\<close> function value is a run-time panic.\<close>

datatype panic = NilFuncCall

section \<open>The standard library calls of getPathOnly\<close>

text \<open>
  \<^verbatim>\<open>strings.Contains(path, "?")\<close> and \<^verbatim>\<open>strings.Split(path, "?")\<close>, for a separator of one
  byte: \<open>Split\<close> cuts the text at every occurrence of the separator and returns the
  pieces in order, so it returns at least one piece.
\<close>

definition Contains :: "string \<Rightarrow> char \<Rightarrow> bool" where
  "Contains str c = (c \<in> set str)"

fun Split :: "string \<Rightarrow> char \<Rightarrow> string list" where
  "Split [] c = [[]]"
| "Split (x # xs) c =
     (if x = c then [] # Split xs c
      else (case Split xs c of
              [] \<Rightarrow> [[x]]
            | w # ws \<Rightarrow> (x # w) # ws))"

section \<open>The queue\<close>

definition push :: "addr \<Rightarrow> Method \<Rightarrow> string \<Rightarrow> RoundTripFunc \<Rightarrow> heap \<Rightarrow> heap" where
  "push q m p r h =
     h\<lparr>cell := (cell h)(q := (cell h q)\<lparr>queue :=
          queue (cell h q) @ [\<lparr>method = m, path = p, trip = r\<rparr>]\<rparr>)\<rparr>"

definition reset :: "addr \<Rightarrow> heap \<Rightarrow> heap" where
  "reset q h = h\<lparr>cell := (cell h)(q := (cell h q)\<lparr>queue := []\<rparr>)\<rparr>"

text \<open>
  The \<^verbatim>\<open>range\<close> loop of \<^verbatim>\<open>pop\<close>: \<open>es\<close> is the slice the loop ranges over (read once, at
  the start), \<open>i\<close> the index it has reached. The loop writes \<^verbatim>\<open>q.queue\<close> only in the
  iteration that returns.
\<close>

function pop_range ::
  "addr \<Rightarrow> tripEntry list \<Rightarrow> nat \<Rightarrow> Method \<Rightarrow> string \<Rightarrow> heap \<Rightarrow> (RoundTripFunc \<times> bool) \<times> heap"
where
  "pop_range q es i m p h =
     (if i < length es then
        (let e = es ! i in
         if method e \<noteq> m \<and> method e \<noteq> ANY then pop_range q es (Suc i) m p h
         else if path e \<noteq> p \<and> path e \<noteq> AnyPath then pop_range q es (Suc i) m p h
         else ((trip e, True),
               h\<lparr>cell := (cell h)(q := (cell h q)\<lparr>queue := take i es @ drop (Suc i) es\<rparr>)\<rparr>))
      else ((None, False), h))"
  by pat_completeness auto
termination
  by (relation "measure (\<lambda>(q, es, i, m, p, h). length es - i)") auto

declare pop_range.simps [simp del]

definition pop :: "addr \<Rightarrow> Method \<Rightarrow> string \<Rightarrow> heap \<Rightarrow> (RoundTripFunc \<times> bool) \<times> heap" where
  "pop q m p h = pop_range q (queue (cell h q)) 0 m p h"

definition getPathOnly :: "request \<Rightarrow> string" where
  "getPathOnly req =
     (let pth = URL req in
      if Contains pth (CHR ''?'') then hd (Split pth (CHR ''?'')) else pth)"

section \<open>Pushers, builders and servers\<close>

definition newTripPusher :: "addr \<Rightarrow> Method \<Rightarrow> string \<Rightarrow> tripPusher" where
  "newTripPusher q m p = \<lparr>engine = q, pmethod = m, ppath = p\<rparr>"

definition Push :: "tripPusher \<Rightarrow> RoundTripFunc \<Rightarrow> heap \<Rightarrow> heap" where
  "Push t f h = push (engine t) (pmethod t) (ppath t) f h"

text \<open>\<^verbatim>\<open>&tripQueue{}\<close>: a new struct with a \<^verbatim>\<open>nil\<close> slice, at a fresh address.\<close>

definition new_tripQueue :: "heap \<Rightarrow> addr \<times> heap" where
  "new_tripQueue h =
     (next_free h,
      h\<lparr>cell := (cell h)(next_free h := \<lparr>queue = []\<rparr>), next_free := Suc (next_free h)\<rparr>)"

definition newTripBuilder :: "heap \<Rightarrow> tripBuilder \<times> heap" where
  "newTripBuilder h =
     (let (q, h') = new_tripQueue h
      in (\<lparr>tripPusher = newTripPusher q ANY AnyPath\<rparr>, h'))"

definition On :: "tripBuilder \<Rightarrow> Method \<Rightarrow> string \<Rightarrow> tripPusher" where
  "On t m p = newTripPusher (engine (tripPusher t)) m p"

definition FailureFunc :: "error option \<Rightarrow> RoundTripFunc" where
  "FailureFunc err = Some (\<lambda>_ t. ((None, err), t))"

text \<open>
  \<^verbatim>\<open>NotMockedFunc(t)\<close>: the closure holds the \<^verbatim>\<open>*testing.T\<close>, which is the test state that
  every function body is given. 500 is \<^verbatim>\<open>http.StatusInternalServerError\<close>.
\<close>

definition NotMockedFunc :: RoundTripFunc where
  "NotMockedFunc =
     Some (\<lambda>r t.
       let msg = ''httpt.Server: RoundTripFunc not mocked for this request ''
                 @ Method r @ '':'' @ getPathOnly r
       in ((Some \<lparr>StatusCode = 500, Body = msg\<rparr>, None), Errorf msg t))"

definition NewServer :: "heap \<Rightarrow> Server \<times> heap" where
  "NewServer h =
     (let (b, h') = newTripBuilder h
      in (\<lparr>tripBuilder = b, DefaultRoundTrip = NotMockedFunc\<rparr>, h'))"

definition NewRawServer :: "heap \<Rightarrow> Server \<times> heap" where
  "NewRawServer h =
     (let (b, h') = newTripBuilder h
      in (\<lparr>tripBuilder = b, DefaultRoundTrip = None\<rparr>, h'))"

definition Reset :: "Server \<Rightarrow> heap \<Rightarrow> heap" where
  "Reset srv h = reset (engine (tripPusher (tripBuilder srv))) h"

definition Len :: "Server \<Rightarrow> heap \<Rightarrow> int" where
  "Len srv h = int (length (queue (cell h (engine (tripPusher (tripBuilder srv))))))"

section \<open>The transport\<close>

text \<open>The call \<^verbatim>\<open>r(req)\<close> of a function value, in a store that the call leaves alone.\<close>

definition call ::
  "RoundTripFunc \<Rightarrow> request \<Rightarrow> heap \<Rightarrow> testing_T \<Rightarrow> panic + results \<times> heap \<times> testing_T"
where
  "call r req h t =
     (case r of
        None \<Rightarrow> Inl NilFuncCall
      | Some f \<Rightarrow> (let (res, t') = f req t in Inr (res, h, t')))"

definition RoundTrip ::
  "transport \<Rightarrow> request \<Rightarrow> heap \<Rightarrow> testing_T \<Rightarrow> panic + results \<times> heap \<times> testing_T"
where
  "RoundTrip tr req h t =
     (let m = Method req;
          pth = getPathOnly req;
          ((r, ok), h') = pop (engine (tripPusher (tripBuilder (s tr)))) m pth h
      in if ok then call r req h' t
         else if DefaultRoundTrip (s tr) = None then
           Inr ((None, Some (Error (''httpt.Server request not mocked for this request ''
                                     @ m @ '':'' @ pth))), h', t)
         else call (DefaultRoundTrip (s tr)) req h' t)"

section \<open>Notions used to state the properties\<close>

text \<open>
  The match condition in the words of the specification (section 4.1), kept apart from
  the two tests in the loop of \<open>pop\<close> so that the loop can be compared with it.
\<close>

definition spec_matches :: "tripEntry \<Rightarrow> Method \<Rightarrow> string \<Rightarrow> bool" where
  "spec_matches e m p =
     ((method e = ANY \<or> method e = m) \<and> (path e = AnyPath \<or> path e = p))"

text \<open>
  A sequence of calls on one queue, \<^verbatim>\<open>q.push(m, p, r)\<close> or \<^verbatim>\<open>q.pop(m, p)\<close>, run in the
  order given; \<open>run\<close> returns what each \<open>pop\<close> returned, in order, and the final store.
\<close>

datatype op = Push_op Method string RoundTripFunc | Pop_op Method string

fun run :: "addr \<Rightarrow> op list \<Rightarrow> heap \<Rightarrow> (RoundTripFunc \<times> bool) list \<times> heap" where
  "run q [] h = ([], h)"
| "run q (Push_op m p r # ops) h = run q ops (push q m p r h)"
| "run q (Pop_op m p # ops) h =
     (let (res, h') = pop q m p h;
          (rs, h'') = run q ops h'
      in (res # rs, h''))"

fun is_push :: "op \<Rightarrow> bool" where
  "is_push (Push_op m p r) = True"
| "is_push (Pop_op m p) = False"

definition pushes :: "op list \<Rightarrow> nat" where
  "pushes ops = length (filter is_push ops)"

definition hits :: "(RoundTripFunc \<times> bool) list \<Rightarrow> nat" where
  "hits rs = length (filter snd rs)"

text \<open>A store in which nothing has been allocated yet.\<close>

definition heap0 :: heap where
  "heap0 = \<lparr>cell = (\<lambda>_. \<lparr>queue = []\<rparr>), next_free = 0\<rparr>"

section \<open>getPathOnly cuts at the first question mark\<close>

lemma Split_not_Nil: "Split xs c \<noteq> []"
  by (induction xs) (auto split: list.splits)

lemma hd_Split: "hd (Split xs c) = takeWhile (\<lambda>x. x \<noteq> c) xs"
  by (induction xs) (auto split: list.splits simp: Split_not_Nil)

lemma getPathOnly_takeWhile:
  "getPathOnly req = takeWhile (\<lambda>x. x \<noteq> CHR ''?'') (URL req)"
proof (cases "CHR ''?'' \<in> set (URL req)")
  case True
  then show ?thesis by (simp add: getPathOnly_def Contains_def hd_Split)
next
  case False
  then have tw: "takeWhile (\<lambda>x. x \<noteq> CHR ''?'') (URL req) = URL req"
    by (intro takeWhile_eq_all_conv[THEN iffD2]) auto
  have gp: "getPathOnly req = URL req"
    using False by (simp add: getPathOnly_def Contains_def)
  show ?thesis by (simp only: gp tw)
qed

section \<open>The loop of pop\<close>

lemma pop_range_miss:
  "(\<And>j. i \<le> j \<Longrightarrow> j < length es \<Longrightarrow>
      (method (es ! j) \<noteq> m \<and> method (es ! j) \<noteq> ANY) \<or>
      (path (es ! j) \<noteq> p \<and> path (es ! j) \<noteq> AnyPath)) \<Longrightarrow>
   pop_range q es i m p h = ((None, False), h)"
proof (induction q es i m p h rule: pop_range.induct)
  case (1 q es i m p h)
  show ?case
  proof (cases "i < length es")
    case False
    then show ?thesis by (subst pop_range.simps) simp
  next
    case True
    from "1.prems"[of i] True
    have skip: "(method (es ! i) \<noteq> m \<and> method (es ! i) \<noteq> ANY) \<or>
      (path (es ! i) \<noteq> p \<and> path (es ! i) \<noteq> AnyPath)" by simp
    have rest: "pop_range q es (Suc i) m p h = ((None, False), h)"
    proof (cases "method (es ! i) \<noteq> m \<and> method (es ! i) \<noteq> ANY")
      case True
      show ?thesis
        by (rule "1.IH"(1)[OF \<open>i < length es\<close> refl True]) (use "1.prems" in auto)
    next
      case False
      with skip have pskip: "path (es ! i) \<noteq> p \<and> path (es ! i) \<noteq> AnyPath" by blast
      show ?thesis
        by (rule "1.IH"(2)[OF \<open>i < length es\<close> refl False pskip]) (use "1.prems" in auto)
    qed
    show ?thesis
      using True skip rest by (subst pop_range.simps) (auto simp: Let_def)
  qed
qed

lemma pop_range_hit:
  assumes "i \<le> length pre"
    and "\<And>x. x \<in> set pre \<Longrightarrow>
      (method x \<noteq> m \<and> method x \<noteq> ANY) \<or> (path x \<noteq> p \<and> path x \<noteq> AnyPath)"
    and "method e = m \<or> method e = ANY"
    and "path e = p \<or> path e = AnyPath"
  shows "pop_range q (pre @ e # post) i m p h =
     ((trip e, True), h\<lparr>cell := (cell h)(q := (cell h q)\<lparr>queue := pre @ post\<rparr>)\<rparr>)"
  using assms(1)
proof (induction "length pre - i" arbitrary: i)
  case 0
  then have i: "i = length pre" by simp
  show ?case
    using assms(3,4) by (subst pop_range.simps) (auto simp: i Let_def)
next
  case (Suc n)
  then have lt: "i < length pre" by simp
  then have mem: "pre ! i \<in> set pre" by simp
  have nth: "(pre @ e # post) ! i = pre ! i" using lt by (simp add: nth_append)
  have IH: "pop_range q (pre @ e # post) (Suc i) m p h =
     ((trip e, True), h\<lparr>cell := (cell h)(q := (cell h q)\<lparr>queue := pre @ post\<rparr>)\<rparr>)"
    using Suc.hyps(1)[of "Suc i"] Suc.hyps(2) lt by simp
  show ?case
    using assms(2)[OF mem] lt IH
    by (subst pop_range.simps) (auto simp: nth Let_def)
qed

lemma pop_miss:
  assumes "\<forall>x\<in>set (queue (cell h q)). \<not> spec_matches x m p"
  shows "pop q m p h = ((None, False), h)"
  unfolding pop_def
  by (rule pop_range_miss) (use assms in \<open>auto simp: spec_matches_def\<close>)

lemma pop_hit:
  assumes "queue (cell h q) = pre @ e # post"
    and "\<forall>x\<in>set pre. \<not> spec_matches x m p"
    and "spec_matches e m p"
  shows "pop q m p h =
     ((trip e, True), h\<lparr>cell := (cell h)(q := (cell h q)\<lparr>queue := pre @ post\<rparr>)\<rparr>)"
  unfolding pop_def assms(1)
  by (rule pop_range_hit) (use assms(2,3) in \<open>auto simp: spec_matches_def\<close>)

lemma pop_cases:
  obtains (hit) pre e post where "queue (cell h q) = pre @ e # post"
      and "\<forall>x\<in>set pre. \<not> spec_matches x m p" and "spec_matches e m p"
      and "pop q m p h =
        ((trip e, True), h\<lparr>cell := (cell h)(q := (cell h q)\<lparr>queue := pre @ post\<rparr>)\<rparr>)"
  | (miss) "\<forall>x\<in>set (queue (cell h q)). \<not> spec_matches x m p"
      and "pop q m p h = ((None, False), h)"
proof (cases "\<exists>x\<in>set (queue (cell h q)). spec_matches x m p")
  case True
  from split_list_first_prop[OF this]
  obtain pre e post where d: "queue (cell h q) = pre @ e # post"
    "spec_matches e m p" "\<forall>x\<in>set pre. \<not> spec_matches x m p"
    by blast
  show ?thesis
    by (rule hit[OF d(1) d(3) d(2) pop_hit[OF d(1) d(3) d(2)]])
next
  case False
  then have n: "\<forall>x\<in>set (queue (cell h q)). \<not> spec_matches x m p" by blast
  show ?thesis by (rule miss[OF n pop_miss[OF n]])
qed

section \<open>The consuming lookup\<close>

text \<open>
  C1. For every queue and every (method, path), \<open>pop\<close> removes exactly the first entry,
  from the head, that matches, and returns that entry's function with \<open>True\<close>: if the
  queue is \<open>pre @ e # post\<close>, nothing in \<open>pre\<close> matches and \<open>e\<close> matches, the queue
  becomes \<open>pre @ post\<close> (every other entry stays, in its order) and no other part of the
  store changes. If no entry matches, \<open>pop\<close> returns \<open>(nil, False)\<close> and the store is
  as it was.
\<close>

theorem pop_removes_first_match:
  "(\<forall>pre e post.
      queue (cell h q) = pre @ e # post \<and> (\<forall>x\<in>set pre. \<not> spec_matches x m p) \<and>
      spec_matches e m p \<longrightarrow>
      pop q m p h =
        ((trip e, True), h\<lparr>cell := (cell h)(q := (cell h q)\<lparr>queue := pre @ post\<rparr>)\<rparr>)) \<and>
   ((\<forall>x\<in>set (queue (cell h q)). \<not> spec_matches x m p) \<longrightarrow>
      pop q m p h = ((None, False), h))"
proof (intro conjI allI impI)
  fix pre e post
  assume a: "queue (cell h q) = pre @ e # post \<and> (\<forall>x\<in>set pre. \<not> spec_matches x m p) \<and>
      spec_matches e m p"
  then show "pop q m p h =
        ((trip e, True), h\<lparr>cell := (cell h)(q := (cell h q)\<lparr>queue := pre @ post\<rparr>)\<rparr>)"
    by (intro pop_hit) auto
next
  assume "\<forall>x\<in>set (queue (cell h q)). \<not> spec_matches x m p"
  then show "pop q m p h = ((None, False), h)" by (rule pop_miss)
qed

text \<open>
  On the queue (POST /p), (GET /p), (ANY, AnyPath) a lookup of GET /p removes the second
  entry and keeps the other two in order; on the queue (POST /p) alone it finds nothing.
\<close>

theorem pop_removes_first_match_witness:
  "pop 0 GET ''/p''
     (push 0 ANY AnyPath NotMockedFunc
       (push 0 GET ''/p'' (FailureFunc None) (push 0 POST ''/p'' None heap0)))
   = ((FailureFunc None, True),
      push 0 ANY AnyPath NotMockedFunc (push 0 POST ''/p'' None heap0)) \<and>
   pop 0 GET ''/p'' (push 0 POST ''/p'' None heap0)
   = ((None, False), push 0 POST ''/p'' None heap0)"
proof -
  let ?h = "push 0 ANY AnyPath NotMockedFunc
       (push 0 GET ''/p'' (FailureFunc None) (push 0 POST ''/p'' None heap0))"
  let ?e1 = "\<lparr>method = POST, path = ''/p'', trip = None\<rparr>"
  let ?e2 = "\<lparr>method = GET, path = ''/p'', trip = FailureFunc None\<rparr>"
  let ?e3 = "\<lparr>method = ANY, path = AnyPath, trip = NotMockedFunc\<rparr>"
  have q: "queue (cell ?h 0) = [?e1] @ ?e2 # [?e3]"
    by (simp add: push_def heap0_def)
  have pre: "\<forall>x\<in>set [?e1]. \<not> spec_matches x GET ''/p''"
    by (simp add: spec_matches_def GET_def POST_def ANY_def AnyPath_def)
  have e: "spec_matches ?e2 GET ''/p''" by (simp add: spec_matches_def)
  have 1: "pop 0 GET ''/p'' ?h =
      ((trip ?e2, True), ?h\<lparr>cell := (cell ?h)(0 := (cell ?h 0)\<lparr>queue := [?e1] @ [?e3]\<rparr>)\<rparr>)"
    using pop_removes_first_match[of ?h 0 GET "''/p''"] q pre e by blast
  have q2: "\<forall>x\<in>set (queue (cell (push 0 POST ''/p'' None heap0) 0)). \<not> spec_matches x GET ''/p''"
    by (simp add: push_def heap0_def spec_matches_def GET_def POST_def ANY_def AnyPath_def)
  have 2: "pop 0 GET ''/p'' (push 0 POST ''/p'' None heap0)
     = ((None, False), push 0 POST ''/p'' None heap0)"
    using pop_removes_first_match[of "push 0 POST ''/p'' None heap0" 0 GET "''/p''"] q2 by blast
  show ?thesis
    unfolding 1 2 by (simp add: push_def heap0_def)
qed

text \<open>
  The test of the loop, for one entry \<open>e\<close> alone in the queue and the lookup that
  \<open>RoundTrip\<close> makes for a request: \<open>e\<close> is taken if and only if its method is \<open>ANY\<close> or
  equal to the request's, and its path is \<open>AnyPath\<close> or equal to the text
  \<open>getPathOnly req\<close>; both are equalities of strings.
\<close>

lemma pop_match_condition:
  assumes "queue (cell h q) = [e]"
  shows "(snd (fst (pop q (Method req) (getPathOnly req) h)) \<longleftrightarrow>
            (method e = ANY \<or> method e = Method req) \<and>
            (path e = AnyPath \<or> path e = getPathOnly req)) \<and>
         (method e \<noteq> ANY \<and> path e \<noteq> AnyPath \<longrightarrow>
            (snd (fst (pop q (Method req) (getPathOnly req) h)) \<longleftrightarrow>
               Method req = method e \<and> getPathOnly req = path e))"
proof -
  have main: "snd (fst (pop q (Method req) (getPathOnly req) h)) \<longleftrightarrow>
            spec_matches e (Method req) (getPathOnly req)"
  proof (cases "spec_matches e (Method req) (getPathOnly req)")
    case True
    have "queue (cell h q) = [] @ e # []" using assms by simp
    from pop_hit[OF this _ True] True show ?thesis by simp
  next
    case False
    then have "\<forall>x\<in>set (queue (cell h q)). \<not> spec_matches x (Method req) (getPathOnly req)"
      using assms by simp
    from pop_miss[OF this] False show ?thesis by simp
  qed
  show ?thesis unfolding main by (auto simp: spec_matches_def)
qed

text \<open>
  The entry (GET, /p) is taken by GET /p?x=1, not by POST /p?x=1 and not by GET /p/q.
\<close>

lemma pop_match_condition_example:
  "snd (fst (pop 0 ''GET'' (getPathOnly \<lparr>Method = ''GET'', URL = ''/p?x=1''\<rparr>)
       (push 0 GET ''/p'' NotMockedFunc heap0))) \<and>
   \<not> snd (fst (pop 0 ''POST'' (getPathOnly \<lparr>Method = ''POST'', URL = ''/p?x=1''\<rparr>)
       (push 0 GET ''/p'' NotMockedFunc heap0))) \<and>
   \<not> snd (fst (pop 0 ''GET'' (getPathOnly \<lparr>Method = ''GET'', URL = ''/p/q''\<rparr>)
       (push 0 GET ''/p'' NotMockedFunc heap0)))"
proof -
  let ?h = "push 0 GET ''/p'' NotMockedFunc heap0"
  let ?e = "\<lparr>method = GET, path = ''/p'', trip = NotMockedFunc\<rparr>"
  have q: "queue (cell ?h 0) = [?e]" by (simp add: push_def heap0_def)
  show ?thesis
    using pop_match_condition[OF q, of "\<lparr>Method = ''GET'', URL = ''/p?x=1''\<rparr>"]
      pop_match_condition[OF q, of "\<lparr>Method = ''POST'', URL = ''/p?x=1''\<rparr>"]
      pop_match_condition[OF q, of "\<lparr>Method = ''GET'', URL = ''/p/q''\<rparr>"]
    by (simp add: getPathOnly_takeWhile GET_def ANY_def AnyPath_def)
qed

text \<open>
  C2. The claim: an entry matches a request if and only if its method is \<open>ANY\<close> or the
  request's and its path is \<open>AnyPath\<close> or the request's path without the query, so that
  an entry (M, X) with neither wildcard matches exactly the requests with method M and
  path X. The two tests of the loop have this form (lemma \<open>pop_match_condition\<close>), but
  the text they compare the entry's path with is \<open>getPathOnly req\<close>, the whole URL text
  cut at the first question mark. The requests GET /p?x=1 and
  GET http://example.com/p?x=1 have the same method, the same path /p and the same
  query; the entry (GET, /p) is taken for the first and not for the second, where the
  lookup returns \<^verbatim>\<open>(nil, false)\<close> and leaves the entry queued.
\<close>

theorem pop_skips_entry_for_absolute_URL:
  "pop 0 (Method \<lparr>Method = ''GET'', URL = ''/p?x=1''\<rparr>)
       (getPathOnly \<lparr>Method = ''GET'', URL = ''/p?x=1''\<rparr>)
       (push 0 GET ''/p'' (FailureFunc None) heap0)
     = ((FailureFunc None, True), heap0) \<and>
   pop 0 (Method \<lparr>Method = ''GET'', URL = ''http://example.com/p?x=1''\<rparr>)
       (getPathOnly \<lparr>Method = ''GET'', URL = ''http://example.com/p?x=1''\<rparr>)
       (push 0 GET ''/p'' (FailureFunc None) heap0)
     = ((None, False), push 0 GET ''/p'' (FailureFunc None) heap0)"
proof -
  let ?h = "push 0 GET ''/p'' (FailureFunc None) heap0"
  let ?e = "\<lparr>method = GET, path = ''/p'', trip = FailureFunc None\<rparr>"
  let ?rel = "\<lparr>Method = ''GET'', URL = ''/p?x=1''\<rparr>"
  let ?abs = "\<lparr>Method = ''GET'', URL = ''http://example.com/p?x=1''\<rparr>"
  have q: "queue (cell ?h 0) = [] @ ?e # []" by (simp add: push_def heap0_def)
  have g1: "getPathOnly ?rel = ''/p''" by (simp add: getPathOnly_takeWhile)
  have g2: "getPathOnly ?abs = ''http://example.com/p''" by (simp add: getPathOnly_takeWhile)
  have pre: "\<forall>x\<in>set []. \<not> spec_matches x (Method ?rel) (getPathOnly ?rel)" by simp
  have m1: "spec_matches ?e (Method ?rel) (getPathOnly ?rel)"
    unfolding g1 by (simp add: spec_matches_def GET_def)
  have r: "?h\<lparr>cell := (cell ?h)(0 := (cell ?h 0)\<lparr>queue := [] @ []\<rparr>)\<rparr> = heap0"
    by (simp add: push_def heap0_def fun_eq_iff)
  have 1: "pop 0 (Method ?rel) (getPathOnly ?rel) ?h = ((FailureFunc None, True), heap0)"
    using pop_hit[OF q pre m1] unfolding r by simp
  have m2: "\<forall>x\<in>set (queue (cell ?h 0)). \<not> spec_matches x (Method ?abs) (getPathOnly ?abs)"
    unfolding g2 by (simp add: push_def heap0_def spec_matches_def AnyPath_def)
  have 2: "pop 0 (Method ?abs) (getPathOnly ?abs) ?h = ((None, False), ?h)"
    by (rule pop_miss[OF m2])
  show ?thesis using 1 2 by (rule conjI)
qed

section \<open>The length of the queue\<close>

lemma Len_push:
  "Len srv (push (engine (tripPusher (tripBuilder srv))) m p r h) = Len srv h + 1"
  by (simp add: Len_def push_def)

lemma Len_pop:
  "Len srv (snd (pop (engine (tripPusher (tripBuilder srv))) m p h)) =
     (if snd (fst (pop (engine (tripPusher (tripBuilder srv))) m p h))
      then Len srv h - 1 else Len srv h)"
  by (rule pop_cases[of h "engine (tripPusher (tripBuilder srv))" m p])
     (simp_all add: Len_def)

lemma Len_run:
  "Len srv (snd (run (engine (tripPusher (tripBuilder srv))) ops h)) + int (hits (fst (run (engine (tripPusher (tripBuilder srv))) ops h)))
     = Len srv h + int (pushes ops)"
proof (induction ops arbitrary: h)
  case Nil
  show ?case by (simp add: hits_def pushes_def)
next
  case (Cons x ops)
  show ?case
  proof (cases x)
    case (Push_op m p r)
    show ?thesis
      using Cons.IH[of "push (engine (tripPusher (tripBuilder srv))) m p r h"]
      by (simp add: Push_op Len_push pushes_def)
  next
    case (Pop_op m p)
    show ?thesis
      using Cons.IH[of "snd (pop (engine (tripPusher (tripBuilder srv))) m p h)"]
        Len_pop[of srv m p h]
      by (cases "snd (fst (pop (engine (tripPusher (tripBuilder srv))) m p h))")
         (simp_all add: Pop_op pushes_def hits_def split_beta Let_def)
  qed
qed

text \<open>
  C3. Starting from an empty queue, after any sequence of pushes and lookups, in any
  order, \<open>Len\<close> is the number of pushes minus the number of lookups that found an
  entry (and that number is at most the number of pushes). In any state, a push makes
  \<open>Len\<close> one greater, a lookup that finds an entry makes it one less, and a lookup that
  finds none leaves it as it was.
\<close>

theorem Len_counts_pushes_and_hits:
  "(Len srv h = 0 \<longrightarrow>
      Len srv (snd (run (engine (tripPusher (tripBuilder srv))) ops h)) =
        int (pushes ops) - int (hits (fst (run (engine (tripPusher (tripBuilder srv))) ops h))) \<and>
      hits (fst (run (engine (tripPusher (tripBuilder srv))) ops h)) \<le> pushes ops) \<and>
   Len srv (push (engine (tripPusher (tripBuilder srv))) m p r h) = Len srv h + 1 \<and>
   Len srv (snd (pop (engine (tripPusher (tripBuilder srv))) m p h)) =
     (if snd (fst (pop (engine (tripPusher (tripBuilder srv))) m p h))
      then Len srv h - 1 else Len srv h)"
proof -
  have nonneg: "0 \<le> Len srv h'" for h' by (simp add: Len_def)
  show ?thesis
    using Len_run[of srv ops h] nonneg[of "snd (run (engine (tripPusher (tripBuilder srv))) ops h)"]
      Len_push[of srv m p r h] Len_pop[of srv m p h]
    by auto
qed

text \<open>
  On a new server: push (GET /a), look up POST /a (nothing), push (ANY, AnyPath), look up
  GET /a and then GET /b (both found). Two pushes and two hits leave length 0.
\<close>

theorem Len_counts_pushes_and_hits_witness:
  "Len (fst (NewRawServer heap0))
     (snd (run 0 [Push_op GET ''/a'' None, Pop_op POST ''/a'', Push_op ANY AnyPath None,
                  Pop_op GET ''/a'', Pop_op GET ''/b'']
             (snd (NewRawServer heap0)))) = 0 \<and>
   pushes [Push_op GET ''/a'' None, Pop_op POST ''/a'', Push_op ANY AnyPath None,
           Pop_op GET ''/a'', Pop_op GET ''/b''] = 2 \<and>
   hits (fst (run 0 [Push_op GET ''/a'' None, Pop_op POST ''/a'', Push_op ANY AnyPath None,
                     Pop_op GET ''/a'', Pop_op GET ''/b'']
               (snd (NewRawServer heap0)))) = 2"
proof -
  let ?srv = "fst (NewRawServer heap0)"
  let ?h = "snd (NewRawServer heap0)"
  let ?ops = "[Push_op GET ''/a'' None, Pop_op POST ''/a'', Push_op ANY AnyPath None,
                  Pop_op GET ''/a'', Pop_op GET ''/b'']"
  have q: "engine (tripPusher (tripBuilder ?srv)) = 0"
    by (simp add: NewRawServer_def newTripBuilder_def new_tripQueue_def newTripPusher_def heap0_def)
  have c: "cell ?h 0 = \<lparr>queue = []\<rparr>"
    by (simp add: NewRawServer_def newTripBuilder_def new_tripQueue_def newTripPusher_def heap0_def)
  have l: "Len ?srv ?h = 0" by (simp add: Len_def q c)
  have p1: "pop 0 POST ''/a'' (push 0 GET ''/a'' None ?h) = ((None, False), push 0 GET ''/a'' None ?h)"
    by (rule pop_miss) (simp add: push_def c spec_matches_def GET_def POST_def ANY_def AnyPath_def)
  let ?h2 = "push 0 ANY AnyPath None (push 0 GET ''/a'' None ?h)"
  have p2: "pop 0 GET ''/a'' ?h2 = ((None, True), push 0 ANY AnyPath None ?h)"
    using pop_hit[of ?h2 0 "[]" "\<lparr>method = GET, path = ''/a'', trip = None\<rparr>"
        "[\<lparr>method = ANY, path = AnyPath, trip = None\<rparr>]" GET "''/a''"]
    by (simp add: push_def c spec_matches_def)
  have p3: "pop 0 GET ''/b'' (push 0 ANY AnyPath None ?h) = ((None, True), ?h\<lparr>cell := (cell ?h)(0 := \<lparr>queue = []\<rparr>)\<rparr>)"
    using pop_hit[of "push 0 ANY AnyPath None ?h" 0 "[]" "\<lparr>method = ANY, path = AnyPath, trip = None\<rparr>"
        "[]" GET "''/b''"]
    by (simp add: push_def c spec_matches_def)
  have r: "fst (run 0 ?ops ?h) = [(None, False), (None, True), (None, True)]"
    by (simp add: p1 p2 p3)
  have h: "hits (fst (run 0 ?ops ?h)) = 2" unfolding r by (simp add: hits_def)
  have n: "pushes ?ops = 2" by (simp add: pushes_def)
  show ?thesis
    using Len_counts_pushes_and_hits[of ?srv ?h ?ops] l h n unfolding q by simp
qed

section \<open>The transport\<close>

lemma RoundTrip_miss:
  assumes "\<forall>e\<in>set (queue (cell h (engine (tripPusher (tripBuilder (s tr)))))).
             \<not> spec_matches e (Method req) (getPathOnly req)"
  shows "RoundTrip tr req h t =
     (if DefaultRoundTrip (s tr) = None then
        Inr ((None, Some (Error (''httpt.Server request not mocked for this request ''
                                  @ Method req @ '':'' @ getPathOnly req))), h, t)
      else call (DefaultRoundTrip (s tr)) req h t)"
  by (simp add: RoundTrip_def Let_def pop_miss[OF assms])

lemma RoundTrip_hit:
  assumes "queue (cell h (engine (tripPusher (tripBuilder (s tr))))) = pre @ e # post"
    and "\<forall>x\<in>set pre. \<not> spec_matches x (Method req) (getPathOnly req)"
    and "spec_matches e (Method req) (getPathOnly req)"
  shows "RoundTrip tr req h t =
     call (trip e) req
       (h\<lparr>cell := (cell h)(engine (tripPusher (tripBuilder (s tr))) :=
            (cell h (engine (tripPusher (tripBuilder (s tr)))))\<lparr>queue := pre @ post\<rparr>)\<rparr>) t"
  by (simp add: RoundTrip_def Let_def pop_hit[OF assms])

text \<open>
  A \<^verbatim>\<open>nil\<close> function can be pushed, since \<open>push\<close> checks nothing; when its entry is the one
  taken, \<open>RoundTrip\<close> calls it and panics.
\<close>

lemma RoundTrip_nil_trip_panics:
  assumes "queue (cell h (engine (tripPusher (tripBuilder (s tr))))) = pre @ e # post"
    and "\<forall>x\<in>set pre. \<not> spec_matches x (Method req) (getPathOnly req)"
    and "spec_matches e (Method req) (getPathOnly req)"
    and "trip e = None"
  shows "RoundTrip tr req h t = Inl NilFuncCall"
  unfolding RoundTrip_hit[OF assms(1-3)] by (simp add: call_def assms(4))

text \<open>
  C4. The claim: the text compared with an entry's path is the path component of the
  request's URL and nothing else, the query being cut off at the first question mark.
  \<open>getPathOnly\<close> does cut at the first question mark (lemma \<open>getPathOnly_takeWhile\<close>),
  but it cuts the whole text of the URL, \<^verbatim>\<open>req.URL.String()\<close>, not the path component:
  for the request GET http://example.com/p?x=1 the compared text is
  http://example.com/p, with scheme and host, and for /p#top it is /p#top, with the
  fragment. So the entry pushed by \<^verbatim>\<open>On(GET, "/p")\<close> is not found for the request
  GET http://example.com/p?x=1, whose path is /p.
\<close>

theorem getPathOnly_keeps_scheme_and_host:
  "getPathOnly \<lparr>Method = ''GET'', URL = ''http://example.com/p?x=1''\<rparr> = ''http://example.com/p'' \<and>
   getPathOnly \<lparr>Method = ''GET'', URL = ''/p#top''\<rparr> = ''/p#top'' \<and>
   RoundTrip \<lparr>s = fst (NewRawServer heap0)\<rparr> \<lparr>Method = ''GET'', URL = ''http://example.com/p?x=1''\<rparr>
     (Push (On (tripBuilder (fst (NewRawServer heap0))) GET ''/p'') (FailureFunc None)
        (snd (NewRawServer heap0))) \<lparr>failed = False, errorfs = []\<rparr>
   = Inr ((None, Some (Error ''httpt.Server request not mocked for this request GET:http://example.com/p'')),
          Push (On (tripBuilder (fst (NewRawServer heap0))) GET ''/p'') (FailureFunc None)
            (snd (NewRawServer heap0)),
          \<lparr>failed = False, errorfs = []\<rparr>)"
proof -
  let ?req = "\<lparr>Method = ''GET'', URL = ''http://example.com/p?x=1''\<rparr>"
  let ?h = "Push (On (tripBuilder (fst (NewRawServer heap0))) GET ''/p'') (FailureFunc None)
        (snd (NewRawServer heap0))"
  have g: "getPathOnly ?req = ''http://example.com/p''"
    by (simp add: getPathOnly_takeWhile)
  have q: "queue (cell ?h (engine (tripPusher (tripBuilder (s \<lparr>s = fst (NewRawServer heap0)\<rparr>)))))
     = [\<lparr>method = GET, path = ''/p'', trip = FailureFunc None\<rparr>]"
    by (simp add: NewRawServer_def newTripBuilder_def new_tripQueue_def newTripPusher_def
        heap0_def Push_def On_def push_def)
  have d: "DefaultRoundTrip (s \<lparr>s = fst (NewRawServer heap0)\<rparr>) = None"
    by (simp add: NewRawServer_def newTripBuilder_def new_tripQueue_def)
  have m: "\<forall>e\<in>set (queue (cell ?h (engine (tripPusher (tripBuilder (s \<lparr>s = fst (NewRawServer heap0)\<rparr>)))))).
             \<not> spec_matches e (Method ?req) (getPathOnly ?req)"
    unfolding q g by (simp add: spec_matches_def AnyPath_def)
  show ?thesis
    unfolding RoundTrip_miss[OF m] d g
    by (simp add: getPathOnly_takeWhile)
qed

text \<open>
  C5. When no entry of the queue matches the request and \<open>DefaultRoundTrip\<close> is \<^verbatim>\<open>nil\<close>,
  \<open>RoundTrip\<close> returns a \<^verbatim>\<open>nil\<close> response and an error whose message holds the
  request's method and the path that was compared; it builds no response, and it
  changes neither the store nor the state of the test.
\<close>

theorem RoundTrip_not_mocked_error:
  assumes "DefaultRoundTrip (s tr) = None"
    and "\<forall>e\<in>set (queue (cell h (engine (tripPusher (tripBuilder (s tr)))))).
           \<not> spec_matches e (Method req) (getPathOnly req)"
  shows "RoundTrip tr req h t =
     Inr ((None, Some (Error (''httpt.Server request not mocked for this request ''
                               @ Method req @ '':'' @ getPathOnly req))), h, t)"
  using RoundTrip_miss[OF assms(2)] assms(1) by simp

text \<open>A new raw server, asked for GET /p?x=1.\<close>

theorem RoundTrip_not_mocked_error_witness:
  "RoundTrip \<lparr>s = fst (NewRawServer heap0)\<rparr> \<lparr>Method = ''GET'', URL = ''/p?x=1''\<rparr>
     (snd (NewRawServer heap0)) \<lparr>failed = False, errorfs = []\<rparr>
   = Inr ((None, Some (Error ''httpt.Server request not mocked for this request GET:/p'')),
          snd (NewRawServer heap0), \<lparr>failed = False, errorfs = []\<rparr>)"
proof -
  let ?tr = "\<lparr>s = fst (NewRawServer heap0)\<rparr>"
  have d: "DefaultRoundTrip (s ?tr) = None"
    by (simp add: NewRawServer_def newTripBuilder_def new_tripQueue_def)
  have m: "\<forall>e\<in>set (queue (cell (snd (NewRawServer heap0)) (engine (tripPusher (tripBuilder (s ?tr)))))).
             \<not> spec_matches e (Method \<lparr>Method = ''GET'', URL = ''/p?x=1''\<rparr>)
                 (getPathOnly \<lparr>Method = ''GET'', URL = ''/p?x=1''\<rparr>)"
    by (simp add: NewRawServer_def newTripBuilder_def new_tripQueue_def newTripPusher_def heap0_def)
  show ?thesis
    using RoundTrip_not_mocked_error[OF d m, of "\<lparr>failed = False, errorfs = []\<rparr>"]
    by (simp add: getPathOnly_takeWhile)
qed

text \<open>
  C6. When no entry of the queue matches the request and \<open>DefaultRoundTrip\<close> is
  \<open>NotMockedFunc\<close> (which is what \<open>NewServer\<close> installs), \<open>RoundTrip\<close> calls \<^verbatim>\<open>t.Errorf\<close>
  exactly once (the list of reports grows by the one message, and the test is marked
  as failed), returns a response with status 500 and a \<^verbatim>\<open>nil\<close> error, and leaves the
  store, and so the length of the queue, as it was.
\<close>

theorem RoundTrip_NotMockedFunc_reports_once:
  assumes "DefaultRoundTrip (s tr) = NotMockedFunc"
    and "\<forall>e\<in>set (queue (cell h (engine (tripPusher (tripBuilder (s tr)))))).
           \<not> spec_matches e (Method req) (getPathOnly req)"
    and "msg = ''httpt.Server: RoundTripFunc not mocked for this request ''
                 @ Method req @ '':'' @ getPathOnly req"
  shows "RoundTrip tr req h t =
           Inr ((Some \<lparr>StatusCode = 500, Body = msg\<rparr>, None), h, Errorf msg t) \<and>
         errorfs (Errorf msg t) = errorfs t @ [msg] \<and>
         failed (Errorf msg t) \<and>
         (\<forall>res h' t'. RoundTrip tr req h t = Inr (res, h', t') \<longrightarrow>
            Len (s tr) h' = Len (s tr) h) \<and>
         DefaultRoundTrip (fst (NewServer h0)) = NotMockedFunc"
proof -
  have "RoundTrip tr req h t = call NotMockedFunc req h t"
    using RoundTrip_miss[OF assms(2)] assms(1) by (simp add: NotMockedFunc_def)
  also have "\<dots> = Inr ((Some \<lparr>StatusCode = 500, Body = msg\<rparr>, None), h, Errorf msg t)"
    by (simp add: call_def NotMockedFunc_def Let_def assms(3))
  finally show ?thesis
    by (simp add: Errorf_def NewServer_def newTripBuilder_def new_tripQueue_def)
qed

text \<open>A new server from \<open>NewServer\<close>, asked for GET /p with nothing queued.\<close>

theorem RoundTrip_NotMockedFunc_reports_once_witness:
  "RoundTrip \<lparr>s = fst (NewServer heap0)\<rparr> \<lparr>Method = ''GET'', URL = ''/p''\<rparr>
     (snd (NewServer heap0)) \<lparr>failed = False, errorfs = []\<rparr>
   = Inr ((Some \<lparr>StatusCode = 500,
                 Body = ''httpt.Server: RoundTripFunc not mocked for this request GET:/p''\<rparr>, None),
          snd (NewServer heap0),
          \<lparr>failed = True,
           errorfs = [''httpt.Server: RoundTripFunc not mocked for this request GET:/p'']\<rparr>) \<and>
   Len (fst (NewServer heap0)) (snd (NewServer heap0)) = 0"
proof -
  let ?tr = "\<lparr>s = fst (NewServer heap0)\<rparr>"
  let ?req = "\<lparr>Method = ''GET'', URL = ''/p''\<rparr>"
  have d: "DefaultRoundTrip (s ?tr) = NotMockedFunc"
    by (simp add: NewServer_def newTripBuilder_def new_tripQueue_def)
  have m: "\<forall>e\<in>set (queue (cell (snd (NewServer heap0)) (engine (tripPusher (tripBuilder (s ?tr)))))).
             \<not> spec_matches e (Method ?req) (getPathOnly ?req)"
    by (simp add: NewServer_def newTripBuilder_def new_tripQueue_def newTripPusher_def heap0_def)
  have g: "''httpt.Server: RoundTripFunc not mocked for this request GET:/p''
        = ''httpt.Server: RoundTripFunc not mocked for this request ''
                 @ Method ?req @ '':'' @ getPathOnly ?req"
    by (simp add: getPathOnly_takeWhile)
  have l: "Len (fst (NewServer heap0)) (snd (NewServer heap0)) = 0"
    by (simp add: Len_def NewServer_def newTripBuilder_def new_tripQueue_def newTripPusher_def heap0_def)
  show ?thesis
    using RoundTrip_NotMockedFunc_reports_once[OF d m g, of "\<lparr>failed = False, errorfs = []\<rparr>"] l
    by (simp add: Errorf_def)
qed

text \<open>
  C7. When the request matches an entry of the queue, \<open>RoundTrip\<close> calls the function of
  the entry that \<open>pop\<close> removed (the first that matches) with the request and returns
  the pair of response and error of that call as it is. In particular, for a function
  built by \<open>FailureFunc err\<close> it returns a \<^verbatim>\<open>nil\<close> response and \<open>err\<close> itself.
\<close>

theorem RoundTrip_returns_trip_results:
  assumes "queue (cell h (engine (tripPusher (tripBuilder (s tr))))) = pre @ e # post"
    and "\<forall>x\<in>set pre. \<not> spec_matches x (Method req) (getPathOnly req)"
    and "spec_matches e (Method req) (getPathOnly req)"
    and "h' = h\<lparr>cell := (cell h)(engine (tripPusher (tripBuilder (s tr))) :=
            (cell h (engine (tripPusher (tripBuilder (s tr)))))\<lparr>queue := pre @ post\<rparr>)\<rparr>"
  shows "(\<forall>f. trip e = Some f \<longrightarrow>
            RoundTrip tr req h t = Inr (fst (f req t), h', snd (f req t))) \<and>
         (\<forall>err. trip e = FailureFunc err \<longrightarrow>
            RoundTrip tr req h t = Inr ((None, err), h', t))"
  unfolding RoundTrip_hit[OF assms(1-3)] assms(4)
  by (auto simp: call_def FailureFunc_def split_beta)

text \<open>
  A new raw server with \<open>FailureFunc\<close> of the error "timeout" pushed for any request,
  asked for GET /p?x=1.
\<close>

theorem RoundTrip_returns_trip_results_witness:
  "RoundTrip \<lparr>s = fst (NewRawServer heap0)\<rparr> \<lparr>Method = ''GET'', URL = ''/p?x=1''\<rparr>
     (Push (tripPusher (tripBuilder (fst (NewRawServer heap0)))) (FailureFunc (Some (Error ''timeout'')))
        (snd (NewRawServer heap0))) \<lparr>failed = False, errorfs = []\<rparr>
   = Inr ((None, Some (Error ''timeout'')), snd (NewRawServer heap0), \<lparr>failed = False, errorfs = []\<rparr>)"
proof -
  let ?tr = "\<lparr>s = fst (NewRawServer heap0)\<rparr>"
  let ?req = "\<lparr>Method = ''GET'', URL = ''/p?x=1''\<rparr>"
  let ?f = "FailureFunc (Some (Error ''timeout''))"
  let ?h = "Push (tripPusher (tripBuilder (fst (NewRawServer heap0)))) ?f (snd (NewRawServer heap0))"
  let ?e = "\<lparr>method = ANY, path = AnyPath, trip = ?f\<rparr>"
  have q: "queue (cell ?h (engine (tripPusher (tripBuilder (s ?tr))))) = [] @ ?e # []"
    by (simp add: NewRawServer_def newTripBuilder_def new_tripQueue_def newTripPusher_def
        heap0_def Push_def push_def)
  have pre: "\<forall>x\<in>set []. \<not> spec_matches x (Method ?req) (getPathOnly ?req)" by simp
  have e: "spec_matches ?e (Method ?req) (getPathOnly ?req)" by (simp add: spec_matches_def)
  have h': "snd (NewRawServer heap0) = ?h\<lparr>cell := (cell ?h)(engine (tripPusher (tripBuilder (s ?tr))) :=
            (cell ?h (engine (tripPusher (tripBuilder (s ?tr)))))\<lparr>queue := [] @ []\<rparr>)\<rparr>"
    by (simp add: NewRawServer_def newTripBuilder_def new_tripQueue_def newTripPusher_def
        heap0_def Push_def push_def)
  have t: "trip ?e = ?f" by simp
  show ?thesis
    using RoundTrip_returns_trip_results[OF q pre e h', of "\<lparr>failed = False, errorfs = []\<rparr>"] t
    by blast
qed

section \<open>Reset\<close>

lemma push_local:
  "cell h q = cell h' q' \<Longrightarrow> cell (push q m p r h) q = cell (push q' m p r h') q'"
  by (simp add: push_def)

lemma pop_local:
  assumes "cell h q = cell h' q'"
  shows "fst (pop q m p h) = fst (pop q' m p h') \<and>
         cell (snd (pop q m p h)) q = cell (snd (pop q' m p h')) q'"
proof (rule pop_cases[of h q m p])
  fix pre e post
  assume a: "queue (cell h q) = pre @ e # post"
    "\<forall>x\<in>set pre. \<not> spec_matches x m p" "spec_matches e m p"
    and r: "pop q m p h =
        ((trip e, True), h\<lparr>cell := (cell h)(q := (cell h q)\<lparr>queue := pre @ post\<rparr>)\<rparr>)"
  from a(1) assms have a': "queue (cell h' q') = pre @ e # post" by simp
  show ?thesis
    unfolding r pop_hit[OF a' a(2,3)] using assms by simp
next
  assume a: "\<forall>x\<in>set (queue (cell h q)). \<not> spec_matches x m p"
    and r: "pop q m p h = ((None, False), h)"
  from a assms have a': "\<forall>x\<in>set (queue (cell h' q')). \<not> spec_matches x m p" by simp
  show ?thesis
    unfolding r pop_miss[OF a'] using assms by simp
qed

lemma run_local:
  "cell h q = cell h' q' \<Longrightarrow>
   fst (run q ops h) = fst (run q' ops h') \<and>
   cell (snd (run q ops h)) q = cell (snd (run q' ops h')) q'"
proof (induction ops arbitrary: h h')
  case Nil
  then show ?case by simp
next
  case (Cons x ops)
  show ?case
  proof (cases x)
    case (Push_op m p r)
    show ?thesis
      using Cons.IH[OF push_local[OF Cons.prems, of m p r]] by (simp add: Push_op)
  next
    case (Pop_op m p)
    from pop_local[OF Cons.prems, of m p]
    have f: "fst (pop q m p h) = fst (pop q' m p h')"
      and c: "cell (snd (pop q m p h)) q = cell (snd (pop q' m p h')) q'" by simp_all
    show ?thesis
      using Cons.IH[OF c] f by (simp add: Pop_op split_beta Let_def)
  qed
qed

text \<open>
  C8. After \<open>Reset\<close>, whatever the queue held, its length is 0; a \<open>RoundTrip\<close> then finds no
  entry for any request: it returns the error of the server without a default, or calls
  \<open>DefaultRoundTrip\<close>, and it leaves the store as \<open>Reset\<close> left it, so the same holds for
  the requests after it. Any sequence of pushes and lookups run after \<open>Reset\<close> returns
  what it returns on a new server and leaves the same queue.
\<close>

theorem Reset_empties_queue:
  "Len srv (Reset srv h) = 0 \<and>
   RoundTrip \<lparr>s = srv\<rparr> req (Reset srv h) t =
     (if DefaultRoundTrip srv = None then
        Inr ((None, Some (Error (''httpt.Server request not mocked for this request ''
                                  @ Method req @ '':'' @ getPathOnly req))), Reset srv h, t)
      else call (DefaultRoundTrip srv) req (Reset srv h) t) \<and>
   fst (run (engine (tripPusher (tripBuilder srv))) ops (Reset srv h)) =
     fst (run (engine (tripPusher (tripBuilder (fst (NewRawServer h0))))) ops (snd (NewRawServer h0))) \<and>
   cell (snd (run (engine (tripPusher (tripBuilder srv))) ops (Reset srv h)))
        (engine (tripPusher (tripBuilder srv))) =
     cell (snd (run (engine (tripPusher (tripBuilder (fst (NewRawServer h0))))) ops (snd (NewRawServer h0))))
        (engine (tripPusher (tripBuilder (fst (NewRawServer h0)))))"
proof -
  let ?q = "engine (tripPusher (tripBuilder srv))"
  have c: "cell (Reset srv h) ?q = \<lparr>queue = []\<rparr>"
    by (simp add: Reset_def reset_def)
  have l: "Len srv (Reset srv h) = 0" by (simp add: Len_def c)
  have m: "\<forall>e\<in>set (queue (cell (Reset srv h) (engine (tripPusher (tripBuilder (s \<lparr>s = srv\<rparr>)))))).
             \<not> spec_matches e (Method req) (getPathOnly req)"
    by (simp add: c)
  have c0: "cell (snd (NewRawServer h0)) (engine (tripPusher (tripBuilder (fst (NewRawServer h0)))))
      = \<lparr>queue = []\<rparr>"
    by (simp add: NewRawServer_def newTripBuilder_def new_tripQueue_def newTripPusher_def)
  have eq: "cell (Reset srv h) ?q =
     cell (snd (NewRawServer h0)) (engine (tripPusher (tripBuilder (fst (NewRawServer h0)))))"
    by (simp only: c c0)
  show ?thesis
    using l RoundTrip_miss[OF m, of t] run_local[OF eq, of ops] by simp
qed

section \<open>The builder\<close>

text \<open>
  C9. On a server from \<open>NewRawServer\<close> or \<open>NewServer\<close>, \<^verbatim>\<open>s.Push(f)\<close> (the \<open>Push\<close> of the
  pusher the server embeds) and \<^verbatim>\<open>s.On(ANY, AnyPath).Push(f)\<close> give the same store from
  any store: each appends the entry (ANY, AnyPath, f) at the tail of the queue at the
  builder's address.
\<close>

theorem Push_is_On_ANY_AnyPath:
  "Push (tripPusher (tripBuilder (fst (NewRawServer h0)))) f h =
     Push (On (tripBuilder (fst (NewRawServer h0))) ANY AnyPath) f h \<and>
   Push (tripPusher (tripBuilder (fst (NewServer h0)))) f h =
     Push (On (tripBuilder (fst (NewServer h0))) ANY AnyPath) f h \<and>
   Push (On b ANY AnyPath) f h =
     h\<lparr>cell := (cell h)(engine (tripPusher b) :=
          (cell h (engine (tripPusher b)))\<lparr>queue :=
             queue (cell h (engine (tripPusher b))) @
               [\<lparr>method = ANY, path = AnyPath, trip = f\<rparr>]\<rparr>)\<rparr>"
  by (simp add: Push_def On_def push_def NewRawServer_def NewServer_def newTripBuilder_def
      new_tripQueue_def newTripPusher_def)

text \<open>
  C10. \<open>ANY\<close> is the empty string. So a push through \<open>On\<close> with the empty string as
  method gives the same store as one with \<open>ANY\<close>; an entry whose method is the empty
  string is taken by a request of any method (when its path fits and nothing before it
  matches); and for a request whose method is the empty string, a queue in which every
  entry has a method other than the empty string has no match.
\<close>

theorem ANY_is_empty_string:
  "ANY = '''' \<and>
   Push (On b '''' p) f h = Push (On b ANY p) f h \<and>
   (\<forall>pre e post.
      queue (cell h q) = pre @ e # post \<and> (\<forall>x\<in>set pre. \<not> spec_matches x m p) \<and>
      method e = '''' \<and> (path e = AnyPath \<or> path e = p) \<longrightarrow>
      pop q m p h =
        ((trip e, True), h\<lparr>cell := (cell h)(q := (cell h q)\<lparr>queue := pre @ post\<rparr>)\<rparr>)) \<and>
   ((\<forall>e\<in>set (queue (cell h q)). method e \<noteq> '''') \<longrightarrow>
      pop q '''' p h = ((None, False), h))"
proof (intro conjI allI impI)
  show "ANY = ''''" by (simp add: ANY_def)
  show "Push (On b '''' p) f h = Push (On b ANY p) f h" by (simp add: ANY_def)
next
  fix pre e post
  assume a: "queue (cell h q) = pre @ e # post \<and> (\<forall>x\<in>set pre. \<not> spec_matches x m p) \<and>
      method e = '''' \<and> (path e = AnyPath \<or> path e = p)"
  then have "spec_matches e m p" by (auto simp: spec_matches_def ANY_def)
  with a show "pop q m p h =
        ((trip e, True), h\<lparr>cell := (cell h)(q := (cell h q)\<lparr>queue := pre @ post\<rparr>)\<rparr>)"
    by (intro pop_hit) auto
next
  assume "\<forall>e\<in>set (queue (cell h q)). method e \<noteq> ''''"
  then have "\<forall>x\<in>set (queue (cell h q)). \<not> spec_matches x '''' p"
    by (auto simp: spec_matches_def ANY_def)
  then show "pop q '''' p h = ((None, False), h)" by (rule pop_miss)
qed

text \<open>
  An entry pushed with method "" is taken by a DELETE request; an entry pushed with
  method GET is not taken by a request whose method is "".
\<close>

theorem ANY_is_empty_string_witness:
  "pop 0 DELETE ''/x'' (Push (On (tripBuilder (fst (NewRawServer heap0))) '''' ''/x'') None
        (snd (NewRawServer heap0)))
     = ((None, True), snd (NewRawServer heap0)) \<and>
   pop 0 '''' ''/x'' (Push (On (tripBuilder (fst (NewRawServer heap0))) GET ''/x'') None
        (snd (NewRawServer heap0)))
     = ((None, False), Push (On (tripBuilder (fst (NewRawServer heap0))) GET ''/x'') None
        (snd (NewRawServer heap0)))"
proof -
  let ?b = "tripBuilder (fst (NewRawServer heap0))"
  let ?h0 = "snd (NewRawServer heap0)"
  let ?h1 = "Push (On ?b '''' ''/x'') None ?h0"
  let ?h2 = "Push (On ?b GET ''/x'') None ?h0"
  let ?e = "\<lparr>method = '''', path = ''/x'', trip = None\<rparr>"
  have q1: "queue (cell ?h1 0) = [] @ ?e # [] \<and> (\<forall>x\<in>set []. \<not> spec_matches x DELETE ''/x'') \<and>
      method ?e = '''' \<and> (path ?e = AnyPath \<or> path ?e = ''/x'')"
    by (simp add: NewRawServer_def newTripBuilder_def new_tripQueue_def newTripPusher_def
        heap0_def Push_def On_def push_def)
  have r1: "?h1\<lparr>cell := (cell ?h1)(0 := (cell ?h1 0)\<lparr>queue := [] @ []\<rparr>)\<rparr> = ?h0"
    by (simp add: NewRawServer_def newTripBuilder_def new_tripQueue_def newTripPusher_def
        heap0_def Push_def On_def push_def)
  have q2: "\<forall>e\<in>set (queue (cell ?h2 0)). method e \<noteq> ''''"
    by (simp add: NewRawServer_def newTripBuilder_def new_tripQueue_def newTripPusher_def
        heap0_def Push_def On_def push_def GET_def)
  have t: "trip ?e = None" by simp
  have "pop 0 DELETE ''/x'' ?h1 =
      ((trip ?e, True), ?h1\<lparr>cell := (cell ?h1)(0 := (cell ?h1 0)\<lparr>queue := [] @ []\<rparr>)\<rparr>)"
    by (rule ANY_is_empty_string[of ?b "''/x''" None ?h1 0 DELETE,
          THEN conjunct2, THEN conjunct2, THEN conjunct1, rule_format, OF q1])
  then have 1: "pop 0 DELETE ''/x'' ?h1 = ((None, True), ?h0)"
    unfolding r1 t .
  from ANY_is_empty_string[of ?b "''/x''" None ?h2 0 DELETE]
  have 2: "pop 0 '''' ''/x'' ?h2 = ((None, False), ?h2)"
    using q2 by blast
  show ?thesis using 1 2 by blast
qed

end
